theory Spec2Isabelle
  imports Complex_Main
begin

section \<open>Word lists: the tokenizer and the membership counter of 05_Word_Lists.ipynb\<close>

text \<open>
  The notebook defines three functions of its own: \<open>word_count\<close>, \<open>text_to_words\<close> and
  \<open>count_occurences\<close>. They are built from the string methods \<open>str.lower\<close>,
  \<open>str.join\<close> and \<open>str.split\<close> and from \<open>len\<close>.

  A text is a Python \<open>str\<close> whose code points are all below 256. It is modelled as an
  Isabelle \<open>string\<close>, one \<open>char\<close> per code point, so the \<open>char\<close> with code \<open>n\<close> stands for
  the code point \<open>n\<close> (ASCII, then the Latin-1 supplement). On this range the string methods
  are modelled exactly; code points from 256 on are outside the model.

  None of the three functions has a failing path on a \<open>str\<close> argument and a list of words, so
  they are total functions here and there is no error value.
\<close>

subsection \<open>The string methods the notebook calls\<close>

text \<open>
  \<open>str.isspace\<close> on one code point below 256: tab, line feed, vertical tab, form feed,
  carriage return (9 to 13), the four separators 28 to 31, the space 32, next line 133 and the
  no-break space 160. These are the code points at which \<open>str.split()\<close> separates.
\<close>

definition isspace :: "char \<Rightarrow> bool" where
  "isspace c =
     (let n = (of_char c :: nat)
      in (9 \<le> n \<and> n \<le> 13) \<or> (28 \<le> n \<and> n \<le> 32) \<or> n = 133 \<or> n = 160)"

text \<open>
  \<open>str.lower\<close> on one code point below 256: the letters A to Z (65 to 90) and the Latin-1
  capitals 192 to 222, the multiplication sign 215 apart, move up by 32; every other code
  point stays.
\<close>

definition lower_char :: "char \<Rightarrow> char" where
  "lower_char c =
     (let n = (of_char c :: nat)
      in if (65 \<le> n \<and> n \<le> 90) \<or> (192 \<le> n \<and> n \<le> 222 \<and> n \<noteq> 215)
         then char_of (n + 32) else c)"

definition lower :: "string \<Rightarrow> string" where
  "lower text = map lower_char text"

text \<open>\<open>sep.join(xs)\<close>: the strings of \<open>xs\<close> in order, with \<open>sep\<close> between neighbours.\<close>

fun join :: "string \<Rightarrow> string list \<Rightarrow> string" where
  "join sep [] = []"
| "join sep [x] = x"
| "join sep (x # y # ys) = x @ sep @ join sep (y # ys)"

text \<open>
  \<open>s.split()\<close> with no argument, as one pass over the string: \<open>cur\<close> is the word read so
  far. A whitespace character closes the current word when there is one and is dropped; any
  other character extends the current word; the end of the string closes the current word when
  there is one. No empty string is ever produced.
\<close>

fun split_from :: "string \<Rightarrow> string \<Rightarrow> string list" where
  "split_from cur [] = (if cur = [] then [] else [cur])"
| "split_from cur (c # cs) =
     (if isspace c
      then (if cur = [] then split_from [] cs else cur # split_from [] cs)
      else split_from (cur @ [c]) cs)"

definition split :: "string \<Rightarrow> string list" where
  "split s = split_from [] s"

text \<open>\<open>len\<close> returns a Python integer.\<close>

definition len :: "'a list \<Rightarrow> int" where
  "len xs = int (length xs)"

text \<open>\<open>string.ascii_uppercase\<close>, the upper-case ASCII letters.\<close>

definition ascii_uppercase :: string where
  "ascii_uppercase = ''ABCDEFGHIJKLMNOPQRSTUVWXYZ''"

subsection \<open>The functions of the notebook\<close>

text \<open>
  \<open>word_count\<close>: \<open>return len(text_string.split())\<close>.
\<close>

definition word_count :: "string \<Rightarrow> int" where
  "word_count text_string = len (split text_string)"

text \<open>
  The punctuation string \<open>p\<close> of \<open>text_to_words\<close>, 32 characters: the double quote is
  code 0x22, the single quote 0x27 and the backslash 0x5C.
\<close>

definition p :: string where
  "p = ''!'' @ [CHR 0x22] @ ''#$%&'' @ [CHR 0x27] @ ''()*+,-./:;<=>?@['' @ [CHR 0x5C]
       @ '']^_`{|}~''"

text \<open>
  \<open>text_to_words\<close>: lower the text, keep the characters that are not in \<open>p\<close> (the list
  comprehension gives one one-character string for each of them, joined on the empty string),
  and split the result.
\<close>

definition text_to_words :: "string \<Rightarrow> string list" where
  "text_to_words text =
     (let text1 = lower text;
          text2 = join [] [[ch]. ch \<leftarrow> text1, ch \<notin> set p]
      in split text2)"

text \<open>
  \<open>count_occurences\<close>: the words of the text that are in the word list, counted. The word
  list is any sequence of strings (a list, or the array of terms read from a file); \<open>w in
  word_list\<close> holds when some entry equals \<open>w\<close>.
\<close>

definition count_occurences :: "string \<Rightarrow> string list \<Rightarrow> int" where
  "count_occurences text word_list =
     (let text_list = text_to_words text;
          intersection = [w \<leftarrow> text_list. w \<in> set word_list]
      in len intersection)"

subsection \<open>The specification's tokenizer and valence scorer\<close>

text \<open>
  The specification lists the punctuation characters one by one:
  \<open>! " # $ % & ' ( ) * + , - . / : ; < = > ? @ [ \ ] ^ _ ` { | } ~\<close>.
\<close>

definition spec_punctuation :: "char set" where
  "spec_punctuation =
     {CHR ''!'', CHR 0x22, CHR ''#'', CHR ''$'', CHR ''%'', CHR ''&'', CHR 0x27, CHR ''('',
      CHR '')'', CHR ''*'', CHR ''+'', CHR '','', CHR ''-'', CHR ''.'', CHR ''/'', CHR '':'',
      CHR '';'', CHR ''<'', CHR ''='', CHR ''>'', CHR ''?'', CHR ''@'', CHR ''['', CHR 0x5C,
      CHR '']'', CHR ''^'', CHR ''_'', CHR 0x60, CHR ''{'', CHR ''|'', CHR ''}'', CHR ''~''}"

text \<open>
  Splitting on whitespace runs, in the specification's words: a maximal run of whitespace is
  one separator, so after the leading run is skipped the next token is the maximal run of
  other characters, and the rest is split in the same way.
\<close>

function split_on_whitespace_runs :: "string \<Rightarrow> string list" where
  "split_on_whitespace_runs s =
     (case dropWhile isspace s of
        [] \<Rightarrow> []
      | c # cs \<Rightarrow>
          (c # takeWhile (\<lambda>x. \<not> isspace x) cs)
            # split_on_whitespace_runs (dropWhile (\<lambda>x. \<not> isspace x) cs))"
  by pat_completeness auto

termination
proof (relation "measure length")
  show "wf (measure length)"
    by simp
next
  fix s :: string and c cs
  assume "dropWhile isspace s = c # cs"
  then have "Suc (length cs) \<le> length s"
    using length_dropWhile_le [of isspace s] by simp
  moreover have "length (dropWhile (\<lambda>x. \<not> isspace x) cs) \<le> length cs"
    by (rule length_dropWhile_le)
  ultimately show "(dropWhile (\<lambda>x. \<not> isspace x) cs, s) \<in> measure length"
    by simp
qed

text \<open>
  The tokenizer of the specification: lower-case the whole input, delete every punctuation
  character, split on whitespace runs.
\<close>

definition tokenize_spec :: "string \<Rightarrow> string list" where
  "tokenize_spec text =
     split_on_whitespace_runs [ch \<leftarrow> lower text. ch \<notin> spec_punctuation]"

text \<open>
  Modelled from the spec: the valence scorer \<open>score\<close>. The notebook only calls
  \<open>afinn.score\<close>, a method of the imported package \<open>afinn\<close>, whose code is not part of the
  repository. The specification gives its algorithm: tokenize the text; for each token, look
  up its weight in the lexicon; sum all found weights, a token absent from the lexicon
  contributing 0; return the sum. The lexicon maps a term to at most one weight, a signed
  real number, and the tokenizer is the one above.
\<close>

definition score :: "string \<Rightarrow> (string \<rightharpoonup> real) \<Rightarrow> real" where
  "score text L =
     (\<Sum>w\<leftarrow>text_to_words text. case L w of None \<Rightarrow> 0 | Some weight \<Rightarrow> weight)"

section \<open>Facts about the string methods\<close>

subsection \<open>Characters\<close>

lemma set_p_codes:
  assumes "c \<in> set p"
  shows "(33 \<le> (of_char c :: nat) \<and> (of_char c :: nat) \<le> 47) \<or> (58 \<le> (of_char c :: nat) \<and> (of_char c :: nat) \<le> 64)
     \<or> (91 \<le> (of_char c :: nat) \<and> (of_char c :: nat) \<le> 96) \<or> (123 \<le> (of_char c :: nat) \<and> (of_char c :: nat) \<le> 126)"
proof -
  have "c \<in> set p \<longrightarrow> ?thesis"
    unfolding p_def by simp
  then show ?thesis using assms by simp
qed
lemma isspace_lower_char: "isspace c \<Longrightarrow> lower_char c = c"
  by (auto simp: isspace_def lower_char_def Let_def)

lemma lower_char_code:
  "(of_char (lower_char c) :: nat) =
     (if (65 \<le> (of_char c :: nat) \<and> (of_char c :: nat) \<le> 90) \<or> (192 \<le> (of_char c :: nat) \<and> (of_char c :: nat) \<le> 222 \<and> (of_char c :: nat) \<noteq> 215)
      then of_char c + 32 else of_char c)"
  by (auto simp: lower_char_def Let_def)

lemma lower_char_not_space: "\<not> isspace c \<Longrightarrow> \<not> isspace (lower_char c)"
  unfolding isspace_def Let_def lower_char_code by (auto split: if_splits)

lemma p_lower_char: "c \<in> set p \<Longrightarrow> lower_char c = c"
  by (drule set_p_codes) (auto simp: lower_char_def Let_def)

lemma isspace_not_p: "isspace c \<Longrightarrow> c \<notin> set p"
  using set_p_codes [of c] by (auto simp: isspace_def Let_def)

lemma set_p_spec: "set p = spec_punctuation"
  by (simp add: p_def spec_punctuation_def)

lemma ascii_uppercase_codes:
  "c \<in> set ascii_uppercase \<Longrightarrow> 65 \<le> (of_char c :: nat) \<and> (of_char c :: nat) \<le> 90"
proof -
  have "c \<in> set ascii_uppercase \<longrightarrow> 65 \<le> (of_char c :: nat) \<and> (of_char c :: nat) \<le> 90"
    unfolding ascii_uppercase_def by simp
  then show "c \<in> set ascii_uppercase \<Longrightarrow> 65 \<le> (of_char c :: nat) \<and> (of_char c :: nat) \<le> 90" by simp
qed

lemma lower_char_not_upper: "lower_char c \<notin> set ascii_uppercase"
  using ascii_uppercase_codes [of "lower_char c"] unfolding lower_char_code
  by (auto split: if_splits)

subsection \<open>Joining and splitting\<close>

lemma join_empty_sep: "join [] xs = concat xs"
  by (induction "[] :: string" xs rule: join.induct) simp_all

lemma kept_chars_filter: "join [] [[ch]. ch \<leftarrow> s, ch \<notin> set p] = filter (\<lambda>ch. ch \<notin> set p) s"
  by (induction s) (simp_all add: join_empty_sep)

lemma text_to_words_filter:
  "text_to_words text = split (filter (\<lambda>ch. ch \<notin> set p) (lower text))"
  by (simp add: text_to_words_def kept_chars_filter)

lemma split_from_nonempty: "[] \<notin> set (split_from cur s)"
  by (induction s arbitrary: cur) simp_all

lemma split_from_no_space:
  "\<forall>c\<in>set cur. \<not> isspace c \<Longrightarrow> w \<in> set (split_from cur s) \<Longrightarrow> \<forall>c\<in>set w. \<not> isspace c"
proof (induction s arbitrary: cur)
  case Nil
  then show ?case by (simp split: if_splits)
next
  case (Cons a s)
  show ?case
  proof (cases "isspace a")
    case True
    with Cons.prems(2) have "w = cur \<or> w \<in> set (split_from [] s)"
      by (simp split: if_splits)
    then show ?thesis
    proof
      assume "w = cur"
      with Cons.prems(1) show ?thesis by simp
    next
      assume "w \<in> set (split_from [] s)"
      then show ?thesis by (rule Cons.IH [rotated]) simp
    qed
  next
    case False
    with Cons.prems(2) have "w \<in> set (split_from (cur @ [a]) s)"
      by simp
    moreover from Cons.prems(1) False have "\<forall>c\<in>set (cur @ [a]). \<not> isspace c"
      by simp
    ultimately show ?thesis by (rule Cons.IH [rotated])
  qed
qed

lemma split_from_chars:
  "w \<in> set (split_from cur s) \<Longrightarrow> set w \<subseteq> set cur \<union> set s"
proof (induction s arbitrary: cur)
  case Nil
  then show ?case by (simp split: if_splits)
next
  case (Cons a s)
  show ?case
  proof (cases "isspace a")
    case True
    with Cons.prems have "w = cur \<or> w \<in> set (split_from [] s)"
      by (simp split: if_splits)
    then show ?thesis
    proof
      assume "w = cur"
      then show ?thesis by blast
    next
      assume "w \<in> set (split_from [] s)"
      then have "set w \<subseteq> set [] \<union> set s" by (rule Cons.IH)
      then show ?thesis by auto
    qed
  next
    case False
    with Cons.prems have "w \<in> set (split_from (cur @ [a]) s)"
      by simp
    then have "set w \<subseteq> set (cur @ [a]) \<union> set s" by (rule Cons.IH)
    then show ?thesis by auto
  qed
qed

lemma split_from_all_space: "\<forall>c\<in>set s. isspace c \<Longrightarrow> split_from [] s = []"
  by (induction s) auto

lemma length_split_from_filter:
  assumes sp: "\<And>c. isspace c \<Longrightarrow> f c = c \<and> keep c"
    and nsp: "\<And>c. \<not> isspace c \<Longrightarrow> \<not> isspace (f c)"
    and cur: "cur' \<noteq> [] \<Longrightarrow> cur \<noteq> []"
  shows "length (split_from cur' (filter keep (map f s))) \<le> length (split_from cur s)"
  using cur
proof (induction s arbitrary: cur cur')
  case Nil
  then show ?case by auto
next
  case (Cons a s)
  show ?case
  proof (cases "isspace a")
    case True
    then have "f a = a" "keep a" using sp by auto
    then show ?thesis using True Cons.IH [of "[]" "[]"] Cons.prems by auto
  next
    case False
    then have nf: "\<not> isspace (f a)" using nsp by simp
    show ?thesis
    proof (cases "keep (f a)")
      case True
      then show ?thesis using False nf Cons.IH [of "cur' @ [f a]" "cur @ [a]"] by simp
    next
      case k: False
      then show ?thesis using False Cons.IH [of cur' "cur @ [a]"] Cons.prems by simp
    qed
  qed
qed

subsection \<open>The one-pass split and the split on whitespace runs agree\<close>

lemma runs_Nil: "split_on_whitespace_runs [] = []"
  by simp

lemma runs_space: "isspace c \<Longrightarrow> split_on_whitespace_runs (c # cs) = split_on_whitespace_runs cs"
  by (subst split_on_whitespace_runs.simps, subst (2) split_on_whitespace_runs.simps) simp

lemma runs_word:
  "\<not> isspace c \<Longrightarrow>
   split_on_whitespace_runs (c # cs) =
     (c # takeWhile (\<lambda>x. \<not> isspace x) cs)
       # split_on_whitespace_runs (dropWhile (\<lambda>x. \<not> isspace x) cs)"
  by (subst split_on_whitespace_runs.simps) simp

declare split_on_whitespace_runs.simps [simp del]

lemma split_from_runs:
  "split_from cur s =
     (if cur = [] then split_on_whitespace_runs s
      else (cur @ takeWhile (\<lambda>x. \<not> isspace x) s)
             # split_on_whitespace_runs (dropWhile (\<lambda>x. \<not> isspace x) s))"
proof (induction s arbitrary: cur)
  case Nil
  then show ?case by (simp add: runs_Nil)
next
  case (Cons a s)
  show ?case
  proof (cases "isspace a")
    case True
    then show ?thesis by (simp add: Cons.IH [of "[]"] runs_space)
  next
    case False
    then show ?thesis by (simp add: Cons.IH [of "cur @ [a]"] runs_word)
  qed
qed

lemma split_runs: "split s = split_on_whitespace_runs s"
  by (simp add: split_def split_from_runs)

subsection \<open>Splitting a text around a space\<close>

lemma split_from_append_space:
  "split_from cur (a @ CHR '' '' # b) = split_from cur a @ split_from [] b"
proof (induction a arbitrary: cur)
  case Nil
  have "isspace CHR '' ''" by (simp add: isspace_def)
  then show ?case by simp
next
  case (Cons x a)
  then show ?case by simp
qed

section \<open>Facts about the functions of the notebook\<close>

lemma count_occurences_filter:
  "count_occurences text word_list =
     int (length (filter (\<lambda>w. w \<in> set word_list) (text_to_words text)))"
  by (simp add: count_occurences_def len_def)

lemma length_filter_mono:
  "(\<And>x. P x \<Longrightarrow> Q x) \<Longrightarrow> length (filter P xs) \<le> length (filter Q xs)"
  by (induction xs) auto

lemma text_to_words_append_space:
  "text_to_words (a @ '' '' @ b) = text_to_words a @ text_to_words b"
proof -
  have "lower_char CHR '' '' = CHR '' ''" by (simp add: lower_char_def)
  moreover have "CHR '' '' \<notin> set p" by (simp add: p_def)
  ultimately show ?thesis
    by (simp add: text_to_words_filter lower_def split_def split_from_append_space)
qed

lemma kept_lowered_chars:
  "c \<in> set (filter (\<lambda>ch. ch \<notin> set p) (lower text)) \<Longrightarrow>
   c \<notin> set p \<and> c \<notin> set ascii_uppercase"
  by (auto simp: lower_def lower_char_not_upper)

section \<open>Properties of the tokenizer, the counter and the scorer\<close>

text \<open>
  C1. For every text, \<open>count_occurences\<close> returns the number of tokens of
  \<open>text_to_words text\<close> that are entries of the word list, by equality of strings: it is the
  number of positions of the token list that hold a member, so a word that occurs twice is
  counted twice. On \<open>He went to the store.\<close> with the words \<open>he\<close> and \<open>him\<close> the count is 1:
  the token is \<open>he\<close> because the text was lowered first. On \<open>He said he would.\<close> it is 2.
\<close>

theorem C1_count_occurences_counts_member_tokens:
  "count_occurences text word_list =
     int (card {i. i < length (text_to_words text) \<and> text_to_words text ! i \<in> set word_list})
   \<and> count_occurences ''He went to the store.'' [''he'', ''him''] = 1
   \<and> count_occurences ''He said he would.'' [''he'', ''him''] = 2"
proof (intro conjI)
  show "count_occurences text word_list =
     int (card {i. i < length (text_to_words text) \<and> text_to_words text ! i \<in> set word_list})"
    by (simp add: count_occurences_filter length_filter_conv_card)
  show "count_occurences ''He went to the store.'' [''he'', ''him''] = 1"
    by code_simp
  show "count_occurences ''He said he would.'' [''he'', ''him''] = 2"
    by code_simp
qed

text \<open>
  C2. \<open>text_to_words\<close> is the tokenizer of the specification: it lowers the whole input,
  deletes every character of the listed punctuation set, and splits what is left on
  whitespace runs. On the sentence of the notebook it returns the eight words \<open>make\<close>,
  \<open>this\<close>, \<open>lower\<close>, \<open>case\<close>, \<open>and\<close>, \<open>remove\<close>, \<open>all\<close>, \<open>punctuation\<close>. A punctuation
  character is deleted, not turned into a separator: \<open>well-known\<close> stays one token.
\<close>

theorem C2_text_to_words_refines_spec_tokenizer:
  "text_to_words text = tokenize_spec text
   \<and> text_to_words ''Make this lower case and remove! All? Punctuation.'' =
       [''make'', ''this'', ''lower'', ''case'', ''and'', ''remove'', ''all'', ''punctuation'']
   \<and> text_to_words ''well-known, e.g. this'' = [''wellknown'', ''eg'', ''this'']"
proof (intro conjI)
  show "text_to_words text = tokenize_spec text"
    by (simp add: text_to_words_filter tokenize_spec_def split_runs set_p_spec)
  show "text_to_words ''Make this lower case and remove! All? Punctuation.'' =
       [''make'', ''this'', ''lower'', ''case'', ''and'', ''remove'', ''all'', ''punctuation'']"
    by code_simp
  show "text_to_words ''well-known, e.g. this'' = [''wellknown'', ''eg'', ''this'']"
    by code_simp
qed

text \<open>
  C3. The valence score is additive over concatenation: for all texts \<open>a\<close> and \<open>b\<close> and
  every lexicon \<open>L\<close>, when the tokens of \<open>a\<close>, a space and \<open>b\<close> are the tokens of \<open>a\<close> followed
  by the tokens of \<open>b\<close>, the score of the concatenation is the sum of the two scores. The score
  is the sum over the tokens of the weight found in the lexicon, 0 for a token that is absent.
\<close>

theorem C3_score_additive:
  assumes "text_to_words (a @ '' '' @ b) = text_to_words a @ text_to_words b"
  shows "score (a @ '' '' @ b) L = score a L + score b L"
  using assms by (simp add: score_def)

theorem C3_score_additive_witness:
  "text_to_words (''Horrible,'' @ '' '' @ ''bad day.'') =
     text_to_words ''Horrible,'' @ text_to_words ''bad day.''
   \<and> score (''Horrible,'' @ '' '' @ ''bad day.'') [''bad'' \<mapsto> - 3, ''horrible'' \<mapsto> - 3] =
       score ''Horrible,'' [''bad'' \<mapsto> - 3, ''horrible'' \<mapsto> - 3]
         + score ''bad day.'' [''bad'' \<mapsto> - 3, ''horrible'' \<mapsto> - 3]
   \<and> score ''Horrible,'' [''bad'' \<mapsto> - 3, ''horrible'' \<mapsto> - 3] = - 3
   \<and> score ''bad day.'' [''bad'' \<mapsto> - 3, ''horrible'' \<mapsto> - 3] = - 3"
proof -
  have h: "text_to_words (''Horrible,'' @ '' '' @ ''bad day.'') =
     text_to_words ''Horrible,'' @ text_to_words ''bad day.''"
    by code_simp
  have t1: "text_to_words ''Horrible,'' = [''horrible'']" by code_simp
  have t2: "text_to_words ''bad day.'' = [''bad'', ''day'']" by code_simp
  have s1: "score ''Horrible,'' [''bad'' \<mapsto> - 3, ''horrible'' \<mapsto> - 3] = - 3"
    by (simp add: score_def t1)
  have s2: "score ''bad day.'' [''bad'' \<mapsto> - 3, ''horrible'' \<mapsto> - 3] = - 3"
    by (simp add: score_def t2)
  show ?thesis
    using h C3_score_additive [OF h, of "[''bad'' \<mapsto> - 3, ''horrible'' \<mapsto> - 3]"] s1 s2
    by (intro conjI)
qed

text \<open>
  C4. Counting is monotone under union of word lists: for every text \<open>t\<close>, when the entries
  of \<open>U\<close> are those of \<open>A\<close> together with those of \<open>B\<close>, the count for \<open>U\<close> is at least the
  larger of the counts for \<open>A\<close> and for \<open>B\<close>.
\<close>

theorem C4_count_monotone_under_union:
  assumes "set U = set A \<union> set B"
  shows "max (count_occurences t A) (count_occurences t B) \<le> count_occurences t U"
proof -
  have "length (filter (\<lambda>w. w \<in> set A) (text_to_words t))
          \<le> length (filter (\<lambda>w. w \<in> set U) (text_to_words t))"
    by (rule length_filter_mono) (simp add: assms)
  moreover have "length (filter (\<lambda>w. w \<in> set B) (text_to_words t))
          \<le> length (filter (\<lambda>w. w \<in> set U) (text_to_words t))"
    by (rule length_filter_mono) (simp add: assms)
  ultimately show ?thesis
    by (simp add: count_occurences_filter)
qed

theorem C4_count_monotone_under_union_witness:
  "set [''he'', ''him'', ''she''] = set [''he'', ''him''] \<union> set [''she'']
   \<and> max (count_occurences ''He saw her; she saw him.'' [''he'', ''him''])
          (count_occurences ''He saw her; she saw him.'' [''she''])
        \<le> count_occurences ''He saw her; she saw him.'' [''he'', ''him'', ''she'']
   \<and> count_occurences ''He saw her; she saw him.'' [''he'', ''him''] = 2
   \<and> count_occurences ''He saw her; she saw him.'' [''she''] = 1
   \<and> count_occurences ''He saw her; she saw him.'' [''he'', ''him'', ''she''] = 3"
proof -
  have h: "set [''he'', ''him'', ''she''] = set [''he'', ''him''] \<union> set [''she'']"
    by auto
  have a: "count_occurences ''He saw her; she saw him.'' [''he'', ''him''] = 2" by code_simp
  have b: "count_occurences ''He saw her; she saw him.'' [''she''] = 1" by code_simp
  have u: "count_occurences ''He saw her; she saw him.'' [''he'', ''him'', ''she''] = 3"
    by code_simp
  show ?thesis
    using h C4_count_monotone_under_union [OF h, of "''He saw her; she saw him.''"] a b u
    by (intro conjI)
qed

text \<open>
  C5. A text that consists only of characters of the punctuation string and of whitespace,
  the empty text included, has no words: \<open>text_to_words\<close> returns the empty list.
\<close>

theorem C5_only_punctuation_and_whitespace_gives_no_words:
  assumes "\<forall>c\<in>set text. c \<in> set p \<or> isspace c"
  shows "text_to_words text = []"
proof -
  have "\<forall>c\<in>set (filter (\<lambda>ch. ch \<notin> set p) (lower text)). isspace c"
  proof
    fix c
    assume "c \<in> set (filter (\<lambda>ch. ch \<notin> set p) (lower text))"
    then obtain d where d: "d \<in> set text" and c: "c = lower_char d" and np: "c \<notin> set p"
      by (auto simp: lower_def)
    from assms d have "d \<in> set p \<or> isspace d" by simp
    then show "isspace c"
    proof
      assume "d \<in> set p"
      then have "c \<in> set p" using c by (simp add: p_lower_char)
      with np show ?thesis by simp
    next
      assume "isspace d"
      then show ?thesis using c by (simp add: isspace_lower_char)
    qed
  qed
  then show ?thesis
    by (simp add: text_to_words_filter split_def split_from_all_space)
qed

theorem C5_only_punctuation_and_whitespace_gives_no_words_witness:
  "set '' ...  !? (-) '' \<subseteq> set p \<union> Collect isspace
   \<and> text_to_words '' ...  !? (-) '' = []
   \<and> text_to_words [] = []"
proof -
  have h: "\<forall>c\<in>set '' ...  !? (-) ''. c \<in> set p \<or> isspace c"
    by code_simp
  have e: "\<forall>c\<in>set ([] :: string). c \<in> set p \<or> isspace c"
    by simp
  from h have "set '' ...  !? (-) '' \<subseteq> set p \<union> Collect isspace"
    by blast
  then show ?thesis
    using C5_only_punctuation_and_whitespace_gives_no_words [OF h]
      C5_only_punctuation_and_whitespace_gives_no_words [OF e]
    by (intro conjI)
qed

text \<open>
  C6. \<open>count_occurences\<close> has no failing path on a text and a word list, and an empty input
  gives 0: the count is 0 for every text when the word list is empty, and 0 for every word
  list when the text is empty.
\<close>

theorem C6_count_occurences_empty_inputs:
  "count_occurences text [] = 0 \<and> count_occurences [] W = 0"
  by (simp add: count_occurences_filter text_to_words_filter lower_def split_def)

text \<open>
  C7. The word list behaves as a set: for every text, two word lists with the same set of
  entries give the same count, so neither the order of the entries nor a repeated entry
  matters.
\<close>

theorem C7_word_list_is_a_set:
  assumes "set L = set L'"
  shows "count_occurences t L = count_occurences t L'"
  by (simp add: count_occurences_filter assms)

theorem C7_word_list_is_a_set_witness:
  "set [''he'', ''him''] = set [''him'', ''he'', ''him'']
   \<and> count_occurences ''He told him.'' [''he'', ''him''] =
       count_occurences ''He told him.'' [''him'', ''he'', ''him'']
   \<and> count_occurences ''He told him.'' [''he'', ''him''] = 2"
proof -
  have h: "set [''he'', ''him''] = set [''him'', ''he'', ''him'']"
    by auto
  have v: "count_occurences ''He told him.'' [''he'', ''him''] = 2" by code_simp
  show ?thesis
    using h C7_word_list_is_a_set [OF h, of "''He told him.''"] v
    by (intro conjI)
qed

text \<open>
  C8. For every text, every token of \<open>text_to_words\<close> is non-empty and holds no whitespace
  character, no character of the punctuation string and no upper-case ASCII letter.
\<close>

theorem C8_tokens_are_clean:
  "\<forall>w\<in>set (text_to_words text).
     w \<noteq> [] \<and> (\<forall>c\<in>set w. \<not> isspace c \<and> c \<notin> set p \<and> c \<notin> set ascii_uppercase)"
proof
  fix w
  assume "w \<in> set (text_to_words text)"
  then have w: "w \<in> set (split_from [] (filter (\<lambda>ch. ch \<notin> set p) (lower text)))"
    by (simp add: text_to_words_filter split_def)
  have ne: "w \<noteq> []"
    using w split_from_nonempty by metis
  have ns: "\<forall>c\<in>set w. \<not> isspace c"
    by (rule split_from_no_space [OF _ w]) simp
  have sub: "set w \<subseteq> set [] \<union> set (filter (\<lambda>ch. ch \<notin> set p) (lower text))"
    using w by (rule split_from_chars)
  have "\<forall>c\<in>set w. c \<notin> set p \<and> c \<notin> set ascii_uppercase"
  proof
    fix c
    assume "c \<in> set w"
    with sub have "c \<in> set (filter (\<lambda>ch. ch \<notin> set p) (lower text))"
      by auto
    then show "c \<notin> set p \<and> c \<notin> set ascii_uppercase"
      by (rule kept_lowered_chars)
  qed
  with ne ns show
    "w \<noteq> [] \<and> (\<forall>c\<in>set w. \<not> isspace c \<and> c \<notin> set p \<and> c \<notin> set ascii_uppercase)"
    by blast
qed

theorem C8_tokens_are_clean_witness:
  "''hi'' \<in> set (text_to_words ''Hi, THERE!'')
   \<and> ''hi'' \<noteq> []
   \<and> CHR ''h'' \<in> set ''hi''
   \<and> \<not> isspace CHR ''h'' \<and> CHR ''h'' \<notin> set p \<and> CHR ''h'' \<notin> set ascii_uppercase"
proof -
  have m: "''hi'' \<in> set (text_to_words ''Hi, THERE!'')"
    by code_simp
  have c: "CHR ''h'' \<in> set ''hi''"
    by simp
  from C8_tokens_are_clean [of "''Hi, THERE!''"] m
  have t: "''hi'' \<noteq> [] \<and>
      (\<forall>c\<in>set ''hi''. \<not> isspace c \<and> c \<notin> set p \<and> c \<notin> set ascii_uppercase)"
    by (rule bspec)
  then have "\<forall>c\<in>set ''hi''. \<not> isspace c \<and> c \<notin> set p \<and> c \<notin> set ascii_uppercase"
    by (rule conjunct2)
  then have "\<not> isspace CHR ''h'' \<and> CHR ''h'' \<notin> set p \<and> CHR ''h'' \<notin> set ascii_uppercase"
    using c by (rule bspec)
  with m t c show ?thesis
    by blast
qed

text \<open>
  C9. For every text and word list the count lies between 0 and the number of tokens of the
  text.
\<close>

theorem C9_count_occurences_bounds:
  "0 \<le> count_occurences text word_list
   \<and> count_occurences text word_list \<le> len (text_to_words text)"
  by (simp add: count_occurences_filter len_def)

text \<open>
  C10. For every text \<open>t\<close> the number of tokens of \<open>text_to_words t\<close> is at most
  \<open>word_count t\<close>, the number of whitespace-separated chunks of the raw text: deleting
  punctuation can empty a chunk and cannot cut one in two.
\<close>

theorem C10_text_to_words_at_most_word_count:
  "len (text_to_words t) \<le> word_count t"
proof -
  have "length (split_from [] (filter (\<lambda>ch. ch \<notin> set p) (map lower_char t)))
          \<le> length (split_from [] t)"
  proof (rule length_split_from_filter)
    fix c assume "isspace c"
    then show "lower_char c = c \<and> c \<notin> set p"
      by (simp add: isspace_lower_char isspace_not_p)
  next
    fix c assume "\<not> isspace c"
    then show "\<not> isspace (lower_char c)" by (rule lower_char_not_space)
  qed simp
  then show ?thesis
    by (simp add: text_to_words_filter word_count_def len_def split_def lower_def)
qed

end
